theory Spec2Isabelle
  imports Main "HOL-Library.Word"
begin

unbundle bit_operations_syntax

section \<open>Objects, tree scopes and the facts read from nodes\<close>

text \<open>
  The C++ works on pointers to heap objects. An object is named by a number. A
  \<^verbatim>\<open>Document\<close> and a \<^verbatim>\<open>ShadowRoot\<close> are both a \<^verbatim>\<open>Node\<close> and a \<^verbatim>\<open>TreeScope\<close>: such an
  object has one identity, its fields as a tree scope are found in \<open>scopes\<close> and the facts
  about it as a node in \<open>nodes\<close>. A nullable pointer is an \<open>option\<close>.
\<close>

type_synonym obj = nat

type_synonym AtomicString = string

text \<open>
  Modelled from the spec: \<^verbatim>\<open>TreeOrderedMap\<close> (the identifier index) is not part of
  \<^verbatim>\<open>TreeScope.cpp\<close>. The spec describes it as a multimap from a string key to the elements
  carrying it: the model keeps one pair per occurrence.
\<close>

type_synonym TreeOrderedMap = "(AtomicString \<times> obj) list"

text \<open>
  The fields of \<^verbatim>\<open>TreeScope\<close> that the functions below read or write (a field
  \<^verbatim>\<open>name_\<close> of the class is the field \<open>name\<close> of the record).
  \<open>id_target_observer_registry\<close> stands for the registry object: what is recorded of it
  is the sequence of \<^verbatim>\<open>NotifyObservers\<close> calls it has received, oldest first.
\<close>

record TreeScope =
  root_node :: obj
  document :: obj
  parent_tree_scope :: "obj option"
  elements_by_id :: "TreeOrderedMap option"
  id_target_observer_registry :: "AtomicString list"

text \<open>
  What \<^verbatim>\<open>TreeScope.cpp\<close> asks of a node through the accessors of \<^verbatim>\<open>Node\<close>,
  \<^verbatim>\<open>Element\<close> and \<^verbatim>\<open>ShadowRoot\<close>. These classes are declared elsewhere, so each
  answer is a field that the heap supplies; no relation between the fields is assumed.
\<close>

record Node =
  tree_scope :: obj
  is_document_node :: bool
  is_shadow_root :: bool
  parent_or_shadow_host_node :: "obj option"
  owner_shadow_host :: "obj option"
  older_shadow_root :: "obj option"
  shadow_root_if_v1 :: "obj option"

text \<open>
  The heap: the tree scopes and the nodes by identity, and two things computed by code
  declared elsewhere. \<open>compare_document_position\<close> is \<^verbatim>\<open>Node::compareDocumentPosition\<close>
  called with \<^verbatim>\<open>kTreatShadowTreesAsDisconnected\<close>, on a node and a nullable node.
  Modelled from the spec: \<open>tree_order\<close> gives for each scope its elements in tree order,
  which is what the identifier index orders its answers by.
\<close>

record heap =
  scopes :: "obj \<Rightarrow> TreeScope"
  nodes :: "obj \<Rightarrow> Node"
  tree_order :: "obj \<Rightarrow> obj list"
  compare_document_position :: "obj \<Rightarrow> obj option \<Rightarrow> 16 word"

definition RootNode :: "heap \<Rightarrow> obj \<Rightarrow> obj" where
  "RootNode h this = root_node (scopes h this)"

definition ParentTreeScope :: "heap \<Rightarrow> obj \<Rightarrow> obj option" where
  "ParentTreeScope h this = parent_tree_scope (scopes h this)"

definition GetDocument :: "heap \<Rightarrow> obj \<Rightarrow> obj" where
  "GetDocument h this = document (scopes h this)"

definition GetTreeScope :: "heap \<Rightarrow> obj \<Rightarrow> obj" where
  "GetTreeScope h node = tree_scope (nodes h node)"

definition IsDocumentNode :: "heap \<Rightarrow> obj \<Rightarrow> bool" where
  "IsDocumentNode h node = is_document_node (nodes h node)"

definition IsShadowRoot :: "heap \<Rightarrow> obj \<Rightarrow> bool" where
  "IsShadowRoot h node = is_shadow_root (nodes h node)"

definition ParentOrShadowHostNode :: "heap \<Rightarrow> obj \<Rightarrow> obj option" where
  "ParentOrShadowHostNode h node = parent_or_shadow_host_node (nodes h node)"

definition OwnerShadowHost :: "heap \<Rightarrow> obj \<Rightarrow> obj option" where
  "OwnerShadowHost h node = owner_shadow_host (nodes h node)"

definition OlderShadowRoot :: "heap \<Rightarrow> obj \<Rightarrow> obj option" where
  "OlderShadowRoot h shadow_root = older_shadow_root (nodes h shadow_root)"

definition ShadowRootIfV1 :: "heap \<Rightarrow> obj \<Rightarrow> obj option" where
  "ShadowRootIfV1 h element = shadow_root_if_v1 (nodes h element)"

section \<open>Retargeting\<close>

text \<open>
  \<^verbatim>\<open>TreeScope::Retarget\<close>: the \<^verbatim>\<open>for\<close> loop over \<^verbatim>\<open>ancestor\<close>. The loop follows
  \<^verbatim>\<open>OwnerShadowHost\<close> pointers, so it returns only if that chain ends; the outer
  \<open>option\<close> is \<open>None\<close> when it does not. Inside, \<open>None\<close> is \<^verbatim>\<open>nullptr\<close>.
\<close>

partial_function (option) Retarget_loop :: "heap \<Rightarrow> obj \<Rightarrow> obj option \<Rightarrow> obj option option" where
  "Retarget_loop h this ancestor =
     (case ancestor of
        None \<Rightarrow> Some None
      | Some a \<Rightarrow>
          if this = GetTreeScope h a then Some (Some a)
          else Retarget_loop h this (OwnerShadowHost h a))"

declare Retarget_loop.simps [code]

definition Retarget :: "heap \<Rightarrow> obj \<Rightarrow> obj \<Rightarrow> obj option option" where
  "Retarget h this target = Retarget_loop h this (Some target)"

text \<open>
  The chain of encapsulation hosts of an element: the element, its owner shadow host, the
  host of that host, and so on up to the element that has none.
\<close>

inductive host_chain :: "heap \<Rightarrow> obj \<Rightarrow> obj list \<Rightarrow> bool" where
  host_chain_end: "OwnerShadowHost h e = None \<Longrightarrow> host_chain h e [e]"
| host_chain_step: "OwnerShadowHost h e = Some p \<Longrightarrow> host_chain h p xs \<Longrightarrow> host_chain h e (e # xs)"

code_pred host_chain .

text \<open>
  \<^verbatim>\<open>TreeScope::AdjustedElement\<close>: the same loop, carrying \<^verbatim>\<open>adjusted_target\<close>, which
  starts as the target and is replaced by each ancestor that has a V1 shadow root.
\<close>

definition adjust_target :: "heap \<Rightarrow> obj \<Rightarrow> obj \<Rightarrow> obj" where
  \<comment> \<open>the statement \<^verbatim>\<open>if (ancestor->ShadowRootIfV1()) adjusted_target = ancestor;\<close>\<close>
  "adjust_target h ancestor adjusted_target =
     (if ShadowRootIfV1 h ancestor \<noteq> None then ancestor else adjusted_target)"

partial_function (option) AdjustedElement_loop ::
    "heap \<Rightarrow> obj \<Rightarrow> obj option \<Rightarrow> obj \<Rightarrow> obj option option" where
  "AdjustedElement_loop h this ancestor adjusted_target =
     (case ancestor of
        None \<Rightarrow> Some None
      | Some a \<Rightarrow>
          if this = GetTreeScope h a then Some (Some (adjust_target h a adjusted_target))
          else AdjustedElement_loop h this (OwnerShadowHost h a)
                 (adjust_target h a adjusted_target))"

declare AdjustedElement_loop.simps [code]

definition AdjustedElement :: "heap \<Rightarrow> obj \<Rightarrow> obj \<Rightarrow> obj option option" where
  "AdjustedElement h this target = AdjustedElement_loop h this (Some target) target"

text \<open>
  The closest strictly encapsulating host among the elements passed: the last one of them
  that has a V1 shadow root, and the raw target when none has.
\<close>

definition closest_strict_host :: "heap \<Rightarrow> obj \<Rightarrow> obj list \<Rightarrow> obj" where
  "closest_strict_host h target passed =
     (case filter (\<lambda>a. ShadowRootIfV1 h a \<noteq> None) passed of
        [] \<Rightarrow> target
      | y # ys \<Rightarrow> last (y # ys))"

section \<open>Ancestor chains\<close>

text \<open>
  The loop \<^verbatim>\<open>for (current = this; current; current = current->ParentTreeScope())
  chain.push_back(current)\<close> of \<^verbatim>\<open>ComparePosition\<close> and \<^verbatim>\<open>CommonAncestorTreeScope\<close>.
  \<open>None\<close> when the parent links never reach a null pointer.
\<close>

partial_function (option) ancestor_chain :: "heap \<Rightarrow> obj option \<Rightarrow> obj list \<Rightarrow> obj list option" where
  "ancestor_chain h current chain =
     (case current of
        None \<Rightarrow> Some chain
      | Some c \<Rightarrow> ancestor_chain h (ParentTreeScope h c) (chain @ [c]))"

declare ancestor_chain.simps [code]

text \<open>
  The ancestor chain of a scope as a list: the scope, its parent, and so on up to the scope
  that has no parent (the document end of the chain).
\<close>

inductive scope_chain :: "heap \<Rightarrow> obj \<Rightarrow> obj list \<Rightarrow> bool" where
  scope_chain_end: "ParentTreeScope h s = None \<Longrightarrow> scope_chain h s [s]"
| scope_chain_step: "ParentTreeScope h s = Some p \<Longrightarrow> scope_chain h p xs \<Longrightarrow> scope_chain h s (s # xs)"

code_pred scope_chain .

section \<open>Position comparison\<close>

text \<open>
  The \<^verbatim>\<open>Node::kDocumentPosition...\<close> constants are declared in \<^verbatim>\<open>Node.h\<close>, outside
  \<^verbatim>\<open>TreeScope.cpp\<close>: they are a parameter of the comparison. \<open>dom_positions\<close> gives them the values
  of the DOM standard, for the examples.
\<close>

record DocumentPosition =
  kDocumentPositionEquivalent :: "16 word"
  kDocumentPositionDisconnected :: "16 word"
  kDocumentPositionPreceding :: "16 word"
  kDocumentPositionFollowing :: "16 word"
  kDocumentPositionContains :: "16 word"
  kDocumentPositionContainedBy :: "16 word"
  kDocumentPositionImplementationSpecific :: "16 word"

definition dom_positions :: DocumentPosition where
  "dom_positions =
     \<lparr> kDocumentPositionEquivalent = 0, kDocumentPositionDisconnected = 1,
       kDocumentPositionPreceding = 2, kDocumentPositionFollowing = 4,
       kDocumentPositionContains = 8, kDocumentPositionContainedBy = 16,
       kDocumentPositionImplementationSpecific = 32 \<rparr>"

text \<open>
  What stops a call before it returns a value: a failed \<^verbatim>\<open>DCHECK\<close> (also the one inside
  the cast \<^verbatim>\<open>ToShadowRoot\<close>) and a member call through a null pointer.
\<close>

datatype fault = DCheckFailure | NullDereference

text \<open>
  The inner loop of \<^verbatim>\<open>ComparePosition\<close> over the older shadow roots of \<^verbatim>\<open>child2\<close>'s
  root, with the \<^verbatim>\<open>return kDocumentPositionPreceding\<close> that follows it.
\<close>

partial_function (option) older_shadow_root_loop ::
    "DocumentPosition \<Rightarrow> heap \<Rightarrow> obj option \<Rightarrow> obj \<Rightarrow> 16 word option" where
  "older_shadow_root_loop K h child child1 =
     (case child of
        None \<Rightarrow> Some (kDocumentPositionPreceding K)
      | Some c \<Rightarrow>
          if c = child1 then Some (kDocumentPositionFollowing K)
          else older_shadow_root_loop K h (OlderShadowRoot h c) child1)"

declare older_shadow_root_loop.simps [code]

text \<open>
  The loop \<^verbatim>\<open>for (unsigned i = std::min(index1, index2); i; --i)\<close> with the return
  after it. \<open>i\<close> never exceeds \<open>index1\<close> or \<open>index2\<close>, so the decrements do not wrap
  and the reads are in range.
\<close>

fun ComparePosition_loop ::
    "DocumentPosition \<Rightarrow> heap \<Rightarrow> obj list \<Rightarrow> obj list \<Rightarrow> nat \<Rightarrow> nat \<Rightarrow> nat
       \<Rightarrow> (fault + 16 word) option" where
  "ComparePosition_loop K h chain1 chain2 index1 index2 0 =
     Some (Inr (if index1 < index2
                then kDocumentPositionFollowing K OR kDocumentPositionContainedBy K
                else kDocumentPositionPreceding K OR kDocumentPositionContains K))"
| "ComparePosition_loop K h chain1 chain2 index1 index2 (Suc i) =
     (let child1 = chain1 ! (index1 - 1);
          child2 = chain2 ! (index2 - 1)
      in if child1 \<noteq> child2
         then (let shadow_host1 = ParentOrShadowHostNode h (RootNode h child1);
                   shadow_host2 = ParentOrShadowHostNode h (RootNode h child2)
               in if shadow_host1 \<noteq> shadow_host2
                  then (case shadow_host1 of
                          None \<Rightarrow> Some (Inl NullDereference)
                        | Some host1 \<Rightarrow> Some (Inr (compare_document_position h host1 shadow_host2)))
                  else if \<not> IsShadowRoot h (RootNode h child2)
                  then Some (Inl DCheckFailure)
                  else map_option Inr
                         (older_shadow_root_loop K h
                            (OlderShadowRoot h (RootNode h child2)) child1))
         else ComparePosition_loop K h chain1 chain2 (index1 - 1) (index2 - 1) i)"

definition ComparePosition ::
    "DocumentPosition \<Rightarrow> heap \<Rightarrow> obj \<Rightarrow> obj \<Rightarrow> (fault + 16 word) option" where
  "ComparePosition K h this other_scope =
     (if other_scope = this then Some (Inr (kDocumentPositionEquivalent K))
      else
        (case ancestor_chain h (Some this) [] of
           None \<Rightarrow> None
         | Some chain1 \<Rightarrow>
             (case ancestor_chain h (Some other_scope) [] of
                None \<Rightarrow> None
              | Some chain2 \<Rightarrow>
                  (let index1 = length chain1; index2 = length chain2
                   in if chain1 ! (index1 - 1) \<noteq> chain2 ! (index2 - 1)
                      then Some (Inr (kDocumentPositionDisconnected K
                                        OR kDocumentPositionImplementationSpecific K))
                      else ComparePosition_loop K h chain1 chain2 index1 index2
                             (min index1 index2)))))"

text \<open>The shadow roots older than a given one, nearest first.\<close>

inductive older_chain :: "heap \<Rightarrow> obj \<Rightarrow> obj list \<Rightarrow> bool" where
  older_chain_end: "OlderShadowRoot h r = None \<Longrightarrow> older_chain h r []"
| older_chain_step: "OlderShadowRoot h r = Some r' \<Longrightarrow> older_chain h r' xs \<Longrightarrow> older_chain h r (r' # xs)"

code_pred older_chain .

section \<open>Common ancestor scope\<close>

text \<open>
  The \<^verbatim>\<open>while\<close> loop of \<^verbatim>\<open>CommonAncestorTreeScope\<close>, popping the last entries of both
  chains while they are the same scope.
\<close>

function pop_matching :: "obj list \<Rightarrow> obj list \<Rightarrow> obj option \<Rightarrow> obj option" where
  "pop_matching this_chain other_chain last_ancestor =
     (if this_chain \<noteq> [] \<and> other_chain \<noteq> [] \<and> last this_chain = last other_chain
      then pop_matching (butlast this_chain) (butlast other_chain) (Some (last this_chain))
      else last_ancestor)"
  by pat_completeness auto
termination
  by (relation "measure (\<lambda>(this_chain, other_chain, last_ancestor). length this_chain)") auto

declare pop_matching.simps [simp del]

definition CommonAncestorTreeScope :: "heap \<Rightarrow> obj \<Rightarrow> obj \<Rightarrow> obj option option" where
  "CommonAncestorTreeScope h this other =
     (case ancestor_chain h (Some this) [] of
        None \<Rightarrow> None
      | Some this_chain \<Rightarrow>
          (case ancestor_chain h (Some other) [] of
             None \<Rightarrow> None
           | Some other_chain \<Rightarrow> Some (pop_matching this_chain other_chain None)))"

section \<open>Reparenting\<close>

text \<open>
  \<^verbatim>\<open>SetDocument\<close> is the inline setter of the header: it assigns \<^verbatim>\<open>document_\<close>.
\<close>

definition SetDocument :: "obj \<Rightarrow> obj \<Rightarrow> heap \<Rightarrow> heap" where
  "SetDocument this doc h =
     h\<lparr>scopes := (scopes h)(this := (scopes h this)\<lparr>document := doc\<rparr>)\<rparr>"

text \<open>
  \<^verbatim>\<open>TreeScope::SetParentTreeScope\<close>. The \<^verbatim>\<open>DCHECK\<close> is a branch of the model: on a scope
  whose root is the document node the call ends in \<open>Inl DCheckFailure\<close>.
\<close>

definition SetParentTreeScope :: "obj \<Rightarrow> obj \<Rightarrow> heap \<Rightarrow> fault + heap" where
  "SetParentTreeScope this new_parent_scope h =
     (if IsDocumentNode h (RootNode h this) then Inl DCheckFailure
      else
        (let h1 = h\<lparr>scopes := (scopes h)
                     (this := (scopes h this)\<lparr>parent_tree_scope := Some new_parent_scope\<rparr>)\<rparr>
         in Inr (SetDocument this (GetDocument h1 new_parent_scope) h1)))"

section \<open>The identifier index\<close>

text \<open>
  The operations of \<^verbatim>\<open>TreeOrderedMap\<close> are not part of \<^verbatim>\<open>TreeScope.cpp\<close>; each is
  modelled from the words of the spec.
\<close>

text \<open>Modelled from the spec: a new index (\<^verbatim>\<open>TreeOrderedMap::Create\<close>) is empty.\<close>

definition TreeOrderedMap_Create :: TreeOrderedMap where
  "TreeOrderedMap_Create = []"

text \<open>Modelled from the spec: \<^verbatim>\<open>TreeOrderedMap::Add\<close> inserts one occurrence.\<close>

definition TreeOrderedMap_Add :: "AtomicString \<Rightarrow> obj \<Rightarrow> TreeOrderedMap \<Rightarrow> TreeOrderedMap" where
  "TreeOrderedMap_Add key element m = m @ [(key, element)]"

text \<open>
  Modelled from the spec: \<^verbatim>\<open>TreeOrderedMap::Remove\<close> removes one occurrence and does
  nothing when the element is not present.
\<close>

definition TreeOrderedMap_Remove :: "AtomicString \<Rightarrow> obj \<Rightarrow> TreeOrderedMap \<Rightarrow> TreeOrderedMap" where
  "TreeOrderedMap_Remove key element m = remove1 (key, element) m"

text \<open>
  Modelled from the spec: \<^verbatim>\<open>TreeOrderedMap::GetAllElementsById\<close> returns all matching
  elements in tree order, the empty sequence if there is none.
\<close>

definition TreeOrderedMap_GetAllElementsById ::
    "TreeOrderedMap \<Rightarrow> AtomicString \<Rightarrow> heap \<Rightarrow> obj \<Rightarrow> obj list" where
  "TreeOrderedMap_GetAllElementsById m key h scope =
     filter (\<lambda>e. (key, e) \<in> set m) (tree_order h scope)"

text \<open>
  Modelled from the spec: \<^verbatim>\<open>TreeOrderedMap::GetElementById\<close> returns the matching element
  that is first in tree order, or none.
\<close>

definition TreeOrderedMap_GetElementById ::
    "TreeOrderedMap \<Rightarrow> AtomicString \<Rightarrow> heap \<Rightarrow> obj \<Rightarrow> obj option" where
  "TreeOrderedMap_GetElementById m key h scope =
     find (\<lambda>e. (key, e) \<in> set m) (tree_order h scope)"

text \<open>
  \<^verbatim>\<open>IdTargetObserverRegistry::NotifyObservers\<close>: the call is recorded in the registry.
\<close>

definition NotifyObservers :: "AtomicString \<Rightarrow> AtomicString list \<Rightarrow> AtomicString list" where
  "NotifyObservers element_id registry = registry @ [element_id]"

text \<open>
  \<^verbatim>\<open>TreeScope::getElementById\<close> and \<^verbatim>\<open>TreeScope::GetAllElementsById\<close>. Like the
  operations that write, they are run on a heap and hand back a heap: the value returned
  comes with the heap as the call leaves it. The bodies assign no field of the scope, and
  the lookup they ask of the index is a function of the index, so every branch hands back
  the heap it was given.
\<close>

definition getElementById :: "heap \<Rightarrow> obj \<Rightarrow> AtomicString \<Rightarrow> obj option \<times> heap" where
  "getElementById h this element_id =
     (if element_id = [] then (None, h)
      else
        (case elements_by_id (scopes h this) of
           None \<Rightarrow> (None, h)
         | Some m \<Rightarrow> (TreeOrderedMap_GetElementById m element_id h this, h)))"

definition GetAllElementsById :: "heap \<Rightarrow> obj \<Rightarrow> AtomicString \<Rightarrow> obj list \<times> heap" where
  "GetAllElementsById h this element_id =
     (if element_id = [] then ([], h)
      else
        (case elements_by_id (scopes h this) of
           None \<Rightarrow> ([], h)
         | Some m \<Rightarrow> (TreeOrderedMap_GetAllElementsById m element_id h this, h)))"

text \<open>\<^verbatim>\<open>TreeScope::AddElementById\<close> and \<^verbatim>\<open>TreeScope::RemoveElementById\<close>.\<close>

definition AddElementById :: "obj \<Rightarrow> AtomicString \<Rightarrow> obj \<Rightarrow> heap \<Rightarrow> heap" where
  "AddElementById this element_id element h =
     (let s = scopes h this;
          m = (case elements_by_id s of None \<Rightarrow> TreeOrderedMap_Create | Some m \<Rightarrow> m)
      in h\<lparr>scopes := (scopes h)
            (this := s\<lparr>elements_by_id := Some (TreeOrderedMap_Add element_id element m),
                       id_target_observer_registry :=
                         NotifyObservers element_id (id_target_observer_registry s)\<rparr>)\<rparr>)"

definition RemoveElementById :: "obj \<Rightarrow> AtomicString \<Rightarrow> obj \<Rightarrow> heap \<Rightarrow> heap" where
  "RemoveElementById this element_id element h =
     (let s = scopes h this
      in case elements_by_id s of
           None \<Rightarrow> h
         | Some m \<Rightarrow>
             h\<lparr>scopes := (scopes h)
               (this := s\<lparr>elements_by_id := Some (TreeOrderedMap_Remove element_id element m),
                          id_target_observer_registry :=
                            NotifyObservers element_id (id_target_observer_registry s)\<rparr>)\<rparr>)"

text \<open>
  An element carries a key in a scope when the index of the scope holds an occurrence of
  the pair: it was added under the key and not removed since.
\<close>

definition carries :: "heap \<Rightarrow> obj \<Rightarrow> AtomicString \<Rightarrow> obj \<Rightarrow> bool" where
  "carries h this key element =
     (case elements_by_id (scopes h this) of
        None \<Rightarrow> False
      | Some m \<Rightarrow> (key, element) \<in> set m)"

section \<open>The access key scan\<close>

text \<open>
  \<^verbatim>\<open>GetElementByAccessKey\<close> reads the tree downwards only: the element descendants of a
  root, and at each element the shadow roots it hosts, from the youngest to the oldest.
  That part of the document is a finite tree, modelled as a datatype. A
  \<open>ContainerNode\<close> is an element or the root node of a scope; \<open>shadow_roots\<close> lists what
  \<^verbatim>\<open>YoungestShadowRoot\<close> and then \<^verbatim>\<open>OlderShadowRoot\<close> give, and \<open>child_elements\<close> the
  children that are elements, in document order. For a root node the first three fields
  are not read.
\<close>

datatype ContainerNode =
  ContainerNode (node_id: obj) (accesskeyAttr: AtomicString)
    (shadow_roots: "ContainerNode list") (child_elements: "ContainerNode list")

text \<open>
  \<^verbatim>\<open>ElementTraversal::DescendantsOf(root)\<close>: the element descendants of the root in
  document order (preorder), the root itself left out.
\<close>

fun InclusiveDescendantsOf :: "ContainerNode \<Rightarrow> ContainerNode list" where
  "InclusiveDescendantsOf (ContainerNode i a srs cs) =
     ContainerNode i a srs cs # concat (map InclusiveDescendantsOf cs)"

definition DescendantsOf :: "ContainerNode \<Rightarrow> ContainerNode list" where
  "DescendantsOf root = concat (map InclusiveDescendantsOf (child_elements root))"

lemma size_InclusiveDescendantsOf:
  "e \<in> set (InclusiveDescendantsOf n) \<Longrightarrow> size e \<le> size n"
proof (induction n arbitrary: e)
  case (ContainerNode i a srs cs)
  show ?case
  proof (cases "e = ContainerNode i a srs cs")
    case True
    then show ?thesis by simp
  next
    case False
    with ContainerNode.prems obtain c where c: "c \<in> set cs" "e \<in> set (InclusiveDescendantsOf c)"
      by auto
    from ContainerNode.IH(2) [OF c] have "size e \<le> size c" .
    moreover from c(1) have "size c \<le> size_list size cs"
      by (rule size_list_estimation') simp
    ultimately show ?thesis by simp
  qed
qed

lemma size_DescendantsOf: "e \<in> set (DescendantsOf root) \<Longrightarrow> size e < size root"
proof -
  assume "e \<in> set (DescendantsOf root)"
  then obtain c where c: "c \<in> set (child_elements root)" "e \<in> set (InclusiveDescendantsOf c)"
    by (auto simp: DescendantsOf_def)
  from c(2) have "size e \<le> size c" by (rule size_InclusiveDescendantsOf)
  moreover from c(1) have "size c \<le> size_list size (child_elements root)"
    by (rule size_list_estimation') simp
  ultimately show ?thesis by (cases root) simp
qed

lemma size_shadow_roots: "r \<in> set (shadow_roots e) \<Longrightarrow> size r < size e"
proof -
  assume "r \<in> set (shadow_roots e)"
  then have "size r \<le> size_list size (shadow_roots e)"
    by (rule size_list_estimation') simp
  then show ?thesis by (cases e) simp
qed

text \<open>
  \<^verbatim>\<open>TreeScope::GetElementByAccessKey\<close>, called on the scope whose root node is \<open>root\<close>.
  The outer \<open>fold\<close> is the loop over the descendants, the inner one the loop over the
  shadow roots of an element; \<open>result\<close> is the local variable. The comparison
  \<^verbatim>\<open>DeprecatedEqualIgnoringCase\<close> is declared elsewhere and is the parameter \<open>eq\<close>.
\<close>

function GetElementByAccessKey ::
    "(AtomicString \<Rightarrow> AtomicString \<Rightarrow> bool) \<Rightarrow> AtomicString \<Rightarrow> ContainerNode
       \<Rightarrow> ContainerNode option" where
  "GetElementByAccessKey eq key root =
     (if key = [] then None
      else
        fold (\<lambda>element result.
                fold (\<lambda>shadow_root result.
                        case GetElementByAccessKey eq key shadow_root of
                          Some shadow_result \<Rightarrow> Some shadow_result
                        | None \<Rightarrow> result)
                     (shadow_roots element)
                     (if eq (accesskeyAttr element) key then Some element else result))
             (DescendantsOf root) None)"
  by pat_completeness auto
termination
  by (relation "measure (\<lambda>(eq, key, root). size root)")
     (auto dest!: size_DescendantsOf size_shadow_roots)

declare GetElementByAccessKey.simps [simp del]

text \<open>
  The visiting order of the scan: each descendant element in document order, followed at
  once by the visiting orders of the shadow roots it hosts, youngest first.
\<close>

function visiting_order :: "ContainerNode \<Rightarrow> ContainerNode list" where
  "visiting_order root =
     concat (map (\<lambda>element. element # concat (map visiting_order (shadow_roots element)))
                 (DescendantsOf root))"
  by pat_completeness auto
termination
  by (relation "measure size") (auto dest!: size_DescendantsOf size_shadow_roots)

declare visiting_order.simps [simp del]

text \<open>The last element of a list that matches the key, if any.\<close>

definition last_match ::
    "(AtomicString \<Rightarrow> AtomicString \<Rightarrow> bool) \<Rightarrow> AtomicString \<Rightarrow> ContainerNode list
       \<Rightarrow> ContainerNode option" where
  "last_match eq key xs =
     (case filter (\<lambda>e. eq (accesskeyAttr e) key) xs of
        [] \<Rightarrow> None
      | y # ys \<Rightarrow> Some (last (y # ys)))"

section \<open>An example document\<close>

text \<open>
  Document 1 holds the elements 10 and 12. Element 10 hosts the V1 shadow root 3, which
  holds element 11; element 11 hosts the legacy shadow root 5, which holds element 13.
  Element 12 hosts two generations of legacy shadow roots: 6, the oldest, and 7, attached
  later. Document 2 is another document, holding element 14. No scope has an identifier
  index yet.
\<close>

definition no_node :: Node where
  "no_node =
     \<lparr> tree_scope = 0, is_document_node = False, is_shadow_root = False,
       parent_or_shadow_host_node = None, owner_shadow_host = None,
       older_shadow_root = None, shadow_root_if_v1 = None \<rparr>"

definition example_nodes :: "obj \<Rightarrow> Node" where
  "example_nodes =
     (\<lambda>_. no_node)
     (1 := no_node\<lparr>tree_scope := 1, is_document_node := True\<rparr>,
      2 := no_node\<lparr>tree_scope := 2, is_document_node := True\<rparr>,
      3 := no_node\<lparr>tree_scope := 3, is_shadow_root := True,
             parent_or_shadow_host_node := Some 10, owner_shadow_host := Some 10\<rparr>,
      5 := no_node\<lparr>tree_scope := 5, is_shadow_root := True,
             parent_or_shadow_host_node := Some 11, owner_shadow_host := Some 11\<rparr>,
      6 := no_node\<lparr>tree_scope := 6, is_shadow_root := True,
             parent_or_shadow_host_node := Some 12, owner_shadow_host := Some 12\<rparr>,
      7 := no_node\<lparr>tree_scope := 7, is_shadow_root := True,
             parent_or_shadow_host_node := Some 12, owner_shadow_host := Some 12,
             older_shadow_root := Some 6\<rparr>,
      10 := no_node\<lparr>tree_scope := 1, parent_or_shadow_host_node := Some 1,
              shadow_root_if_v1 := Some 3\<rparr>,
      11 := no_node\<lparr>tree_scope := 3, parent_or_shadow_host_node := Some 3,
              owner_shadow_host := Some 10\<rparr>,
      12 := no_node\<lparr>tree_scope := 1, parent_or_shadow_host_node := Some 1\<rparr>,
      13 := no_node\<lparr>tree_scope := 5, parent_or_shadow_host_node := Some 5,
              owner_shadow_host := Some 11\<rparr>,
      14 := no_node\<lparr>tree_scope := 2, parent_or_shadow_host_node := Some 2\<rparr>)"

definition no_scope :: TreeScope where
  "no_scope =
     \<lparr> root_node = 0, document = 0, parent_tree_scope = None, elements_by_id = None,
       id_target_observer_registry = [] \<rparr>"

definition example_scopes :: "obj \<Rightarrow> TreeScope" where
  "example_scopes =
     (\<lambda>_. no_scope)
     (1 := no_scope\<lparr>root_node := 1, document := 1\<rparr>,
      2 := no_scope\<lparr>root_node := 2, document := 2\<rparr>,
      3 := no_scope\<lparr>root_node := 3, document := 1, parent_tree_scope := Some 1\<rparr>,
      5 := no_scope\<lparr>root_node := 5, document := 1, parent_tree_scope := Some 3\<rparr>,
      6 := no_scope\<lparr>root_node := 6, document := 1, parent_tree_scope := Some 1\<rparr>,
      7 := no_scope\<lparr>root_node := 7, document := 1, parent_tree_scope := Some 1\<rparr>)"

definition example_heap :: heap where
  "example_heap =
     \<lparr> scopes = example_scopes, nodes = example_nodes,
       tree_order = (\<lambda>_. [])(1 := [10, 12], 2 := [14], 3 := [11], 5 := [13]),
       compare_document_position = (\<lambda>_ _. 0) \<rparr>"

text \<open>
  A document for the access key scan: element 20 has the access key \<open>k\<close> and hosts two
  shadow roots, the younger holding element 21 and the older holding element 22, both with
  the access key \<open>k\<close>; element 23, a child of 20, has the key \<open>k\<close> and element 24, after
  them, the key \<open>z\<close>.
\<close>

definition example_document :: ContainerNode where
  "example_document =
     ContainerNode 1 [] []
       [ContainerNode 20 ''k''
          [ContainerNode 3 [] [] [ContainerNode 21 ''k'' [] []],
           ContainerNode 4 [] [] [ContainerNode 22 ''k'' [] []]]
          [ContainerNode 23 ''k'' [] []],
        ContainerNode 24 ''z'' [] []]"

section \<open>Facts about the example document\<close>

lemma example_OwnerShadowHost:
  "OwnerShadowHost example_heap 13 = Some 11"
  "OwnerShadowHost example_heap 11 = Some 10"
  "OwnerShadowHost example_heap 10 = None"
  by (simp_all add: OwnerShadowHost_def example_heap_def example_nodes_def no_node_def)

lemma example_GetTreeScope:
  "GetTreeScope example_heap 13 = 5"
  "GetTreeScope example_heap 11 = 3"
  "GetTreeScope example_heap 10 = 1"
  by (simp_all add: GetTreeScope_def example_heap_def example_nodes_def no_node_def)

lemma example_host_chain: "host_chain example_heap 13 [13, 11, 10]"
  by (rule host_chain_step host_chain_end example_OwnerShadowHost)+

section \<open>Retargeting: the first element of the host chain that lies in the scope\<close>

lemma Retarget_loop_host_chain:
  "host_chain h e xs \<Longrightarrow>
     Retarget_loop h this (Some e) = Some (find (\<lambda>a. GetTreeScope h a = this) xs)"
proof (induction rule: host_chain.induct)
  case (host_chain_end h e)
  then show ?case
    by (simp add: Retarget_loop.simps [of h this "Some e"] Retarget_loop.simps [of h this None])
next
  case (host_chain_step h e p xs)
  then show ?case
    by (simp add: Retarget_loop.simps [of h this "Some e"])
qed

lemma host_chain_hd: "host_chain h e xs \<Longrightarrow> \<exists>ys. xs = e # ys"
  by (erule host_chain.cases) simp_all

text \<open>
  Claim C4. When the chain of encapsulation hosts of \<open>e\<close> is the finite list \<open>xs\<close>
  (\<open>e\<close> itself, its host, the host of its host, ...), \<open>Retarget\<close> on scope \<open>S\<close> returns,
  and what it returns is the first element of \<open>xs\<close> whose tree scope is \<open>S\<close>. So it
  returns \<open>e\<close> itself when the scope of \<open>e\<close> is \<open>S\<close>, and the null pointer when no element
  of the chain belongs to \<open>S\<close>.
\<close>

theorem Retarget_first_in_scope:
  assumes "host_chain h e xs"
  shows "Retarget h S e = Some (find (\<lambda>a. GetTreeScope h a = S) xs)
       \<and> (GetTreeScope h e = S \<longrightarrow> Retarget h S e = Some (Some e))
       \<and> ((\<forall>a \<in> set xs. GetTreeScope h a \<noteq> S) \<longrightarrow> Retarget h S e = Some None)"
proof -
  have first: "Retarget h S e = Some (find (\<lambda>a. GetTreeScope h a = S) xs)"
    unfolding Retarget_def using assms by (rule Retarget_loop_host_chain)
  from assms obtain ys where xs: "xs = e # ys"
    using host_chain_hd by blast
  have self: "GetTreeScope h e = S \<longrightarrow> Retarget h S e = Some (Some e)"
    by (simp add: first xs)
  have none: "(\<forall>a \<in> set xs. GetTreeScope h a \<noteq> S) \<longrightarrow> Retarget h S e = Some None"
    by (simp add: first find_None_iff)
  from first self none show ?thesis by blast
qed

text \<open>
  In the example, element 13 is retargeted to element 10 for the document, to itself for
  its own scope, and to nothing for the other document.
\<close>

theorem Retarget_first_in_scope_witness:
  "host_chain example_heap 13 [13, 11, 10]
   \<and> Retarget example_heap 1 13 = Some (Some 10)
   \<and> Retarget example_heap 5 13 = Some (Some 13)
   \<and> Retarget example_heap 2 13 = Some None"
  using Retarget_first_in_scope [OF example_host_chain, of 1]
        Retarget_first_in_scope [OF example_host_chain, of 5]
        Retarget_first_in_scope [OF example_host_chain, of 2]
  by (simp add: example_host_chain example_GetTreeScope)

section \<open>The adjusted element: the closest strict host passed on the way\<close>

lemma closest_strict_host_Cons:
  "closest_strict_host h t (e # ys) = closest_strict_host h (adjust_target h e t) ys"
  by (simp add: closest_strict_host_def adjust_target_def split: list.splits)

lemma closest_strict_host_single:
  "closest_strict_host h t [e] = adjust_target h e t"
  by (simp add: closest_strict_host_def adjust_target_def)

lemma AdjustedElement_loop_None: "AdjustedElement_loop h S None t = Some None"
  by (subst AdjustedElement_loop.simps) simp

lemma AdjustedElement_loop_Some:
  "AdjustedElement_loop h S (Some a) t =
     (if S = GetTreeScope h a then Some (Some (adjust_target h a t))
      else AdjustedElement_loop h S (OwnerShadowHost h a) (adjust_target h a t))"
  by (subst AdjustedElement_loop.simps) simp

lemma AdjustedElement_loop_host_chain:
  "host_chain h e xs \<Longrightarrow>
     AdjustedElement_loop h S (Some e) t =
       Some (case dropWhile (\<lambda>a. GetTreeScope h a \<noteq> S) xs of
               [] \<Rightarrow> None
             | m # _ \<Rightarrow>
                 Some (closest_strict_host h t
                         (takeWhile (\<lambda>a. GetTreeScope h a \<noteq> S) xs @ [m])))"
proof (induction arbitrary: t rule: host_chain.induct)
  case (host_chain_end h e)
  then show ?case
    by (simp add: AdjustedElement_loop_Some AdjustedElement_loop_None
        closest_strict_host_single)
next
  case (host_chain_step h e p xs)
  show ?case
  proof (cases "S = GetTreeScope h e")
    case True
    then show ?thesis
      by (simp add: AdjustedElement_loop_Some closest_strict_host_single)
  next
    case False
    then have "AdjustedElement_loop h S (Some e) t =
        AdjustedElement_loop h S (Some p) (adjust_target h e t)"
      using host_chain_step.hyps(1) by (simp add: AdjustedElement_loop_Some)
    also note host_chain_step.IH [of "adjust_target h e t"]
    finally have loop: "AdjustedElement_loop h S (Some e) t =
        Some (case dropWhile (\<lambda>a. GetTreeScope h a \<noteq> S) xs of
                [] \<Rightarrow> None
              | m # _ \<Rightarrow>
                  Some (closest_strict_host h (adjust_target h e t)
                          (takeWhile (\<lambda>a. GetTreeScope h a \<noteq> S) xs @ [m])))" .
    from False have ne: "GetTreeScope h e \<noteq> S" by blast
    show ?thesis
      by (simp add: loop ne closest_strict_host_Cons cong: list.case_cong)
  qed
qed

text \<open>
  Claim C5. \<open>AdjustedElement\<close> walks the same host chain as \<open>Retarget\<close>. When the chain
  of \<open>e\<close> is the finite list \<open>xs\<close>, the call returns; it returns the null pointer when
  no element of the chain lies in scope \<open>S\<close>, and otherwise, with \<open>m\<close> the first element
  of the chain in \<open>S\<close>, the last element passed up to and including \<open>m\<close> that has a V1
  shadow root (the strict host closest to \<open>S\<close>), or the raw target \<open>e\<close> when none of
  them has one: hosts of legacy and user-agent shadow roots substitute nothing. In
  particular, when \<open>e\<close> lies in the V1 shadow tree of a host \<open>H\<close> of scope \<open>S\<close>, the
  result is \<open>H\<close>.
\<close>

theorem AdjustedElement_closest_strict_host:
  assumes "host_chain h e xs"
  shows "AdjustedElement h S e =
           Some (case dropWhile (\<lambda>a. GetTreeScope h a \<noteq> S) xs of
                   [] \<Rightarrow> None
                 | m # _ \<Rightarrow>
                     Some (closest_strict_host h e
                             (takeWhile (\<lambda>a. GetTreeScope h a \<noteq> S) xs @ [m])))
       \<and> (OwnerShadowHost h e = Some H \<and> ShadowRootIfV1 h H \<noteq> None
            \<and> GetTreeScope h H = S \<and> GetTreeScope h e \<noteq> S
          \<longrightarrow> AdjustedElement h S e = Some (Some H))"
proof -
  have walk: "AdjustedElement h S e =
           Some (case dropWhile (\<lambda>a. GetTreeScope h a \<noteq> S) xs of
                   [] \<Rightarrow> None
                 | m # _ \<Rightarrow>
                     Some (closest_strict_host h e
                             (takeWhile (\<lambda>a. GetTreeScope h a \<noteq> S) xs @ [m])))"
    unfolding AdjustedElement_def using assms by (rule AdjustedElement_loop_host_chain)
  have scenario: "AdjustedElement h S e = Some (Some H)"
    if "OwnerShadowHost h e = Some H" "ShadowRootIfV1 h H \<noteq> None"
       "GetTreeScope h H = S" "GetTreeScope h e \<noteq> S"
    using that
    by (auto simp: AdjustedElement_def AdjustedElement_loop_Some adjust_target_def)
  from walk scenario show ?thesis by blast
qed

text \<open>
  In the example, element 11 lies in the V1 shadow tree of element 10: seen from the
  document it is adjusted to 10. Element 13 lies in a legacy shadow tree hosted by 11: seen
  from the scope of 11 it stays 13. Seen from the other document it is nothing.
\<close>

lemma example_ShadowRootIfV1:
  "ShadowRootIfV1 example_heap 13 = None"
  "ShadowRootIfV1 example_heap 11 = None"
  "ShadowRootIfV1 example_heap 10 = Some 3"
  by (simp_all add: ShadowRootIfV1_def example_heap_def example_nodes_def no_node_def)

lemma example_host_chain_11: "host_chain example_heap 11 [11, 10]"
  by (rule host_chain_step host_chain_end example_OwnerShadowHost)+

theorem AdjustedElement_closest_strict_host_witness:
  "host_chain example_heap 11 [11, 10]
   \<and> OwnerShadowHost example_heap 11 = Some 10
   \<and> ShadowRootIfV1 example_heap 10 \<noteq> None
   \<and> GetTreeScope example_heap 10 = 1
   \<and> GetTreeScope example_heap 11 \<noteq> 1
   \<and> AdjustedElement example_heap 1 11 = Some (Some 10)
   \<and> AdjustedElement example_heap 3 13 = Some (Some 13)
   \<and> AdjustedElement example_heap 2 13 = Some None"
  using AdjustedElement_closest_strict_host [OF example_host_chain_11, of 1 10]
        AdjustedElement_closest_strict_host [OF example_host_chain, of 3 10]
        AdjustedElement_closest_strict_host [OF example_host_chain, of 2 10]
  by (simp add: example_host_chain_11 example_GetTreeScope example_OwnerShadowHost
      example_ShadowRootIfV1 closest_strict_host_def)

section \<open>Position comparison along the ancestor chains\<close>

lemma ancestor_chain_None: "ancestor_chain h None chain = Some chain"
  by (subst ancestor_chain.simps) simp

lemma ancestor_chain_Some:
  "ancestor_chain h (Some c) chain = ancestor_chain h (ParentTreeScope h c) (chain @ [c])"
  by (subst ancestor_chain.simps) simp

lemma ancestor_chain_scope_chain:
  "scope_chain h s xs \<Longrightarrow> ancestor_chain h (Some s) chain = Some (chain @ xs)"
proof (induction arbitrary: chain rule: scope_chain.induct)
  case (scope_chain_end h s)
  then show ?case by (simp add: ancestor_chain_Some ancestor_chain_None)
next
  case (scope_chain_step h s p xs)
  have "ancestor_chain h (Some s) chain = ancestor_chain h (Some p) (chain @ [s])"
    by (subst ancestor_chain_Some) (simp add: scope_chain_step.hyps)
  also have "\<dots> = Some ((chain @ [s]) @ xs)"
    by (rule scope_chain_step.IH)
  finally show ?case by simp
qed

lemma scope_chain_hd: "scope_chain h s xs \<Longrightarrow> \<exists>ys. xs = s # ys"
  by (erule scope_chain.cases) simp_all

lemma scope_chain_unique: "scope_chain h s xs \<Longrightarrow> scope_chain h s ys \<Longrightarrow> xs = ys"
proof (induction arbitrary: ys rule: scope_chain.induct)
  case (scope_chain_end h s)
  from scope_chain_end.prems scope_chain_end.hyps show ?case
    by (cases rule: scope_chain.cases) simp_all
next
  case (scope_chain_step h s p xs)
  from scope_chain_step.prems scope_chain_step.hyps(1) scope_chain_step.IH show ?case
    by (cases rule: scope_chain.cases) simp_all
qed

text \<open>While the entries at the same distance from the document end agree, the loop goes on.\<close>

lemma ComparePosition_loop_common:
  "i \<le> length cs \<Longrightarrow>
   ComparePosition_loop K h (xs @ cs) (ys @ cs) (length xs + i) (length ys + i) (k + i) =
   ComparePosition_loop K h (xs @ cs) (ys @ cs) (length xs) (length ys) k"
proof (induction i)
  case 0
  then show ?case by simp
next
  case (Suc i)
  then have "(xs @ cs) ! (length xs + i) = cs ! i" "(ys @ cs) ! (length ys + i) = cs ! i"
    by (simp_all add: nth_append)
  with Suc show ?case by simp
qed

lemma older_shadow_root_loop_None:
  "older_shadow_root_loop K h None child1 = Some (kDocumentPositionPreceding K)"
  by (subst older_shadow_root_loop.simps) simp

lemma older_shadow_root_loop_Some:
  "older_shadow_root_loop K h (Some c) child1 =
     (if c = child1 then Some (kDocumentPositionFollowing K)
      else older_shadow_root_loop K h (OlderShadowRoot h c) child1)"
  by (subst older_shadow_root_loop.simps) simp

lemma older_shadow_root_loop_older_chain:
  "older_chain h r os \<Longrightarrow>
     older_shadow_root_loop K h (OlderShadowRoot h r) child1 =
       Some (if child1 \<in> set os then kDocumentPositionFollowing K
             else kDocumentPositionPreceding K)"
proof (induction rule: older_chain.induct)
  case (older_chain_end h r)
  then show ?case by (simp add: older_shadow_root_loop_None)
next
  case (older_chain_step h r r' xs)
  then show ?case by (auto simp: older_shadow_root_loop_Some)
qed

text \<open>The ancestor chains of the example.\<close>

lemma example_ParentTreeScope:
  "ParentTreeScope example_heap 1 = None"
  "ParentTreeScope example_heap 2 = None"
  "ParentTreeScope example_heap 3 = Some 1"
  "ParentTreeScope example_heap 5 = Some 3"
  "ParentTreeScope example_heap 6 = Some 1"
  "ParentTreeScope example_heap 7 = Some 1"
  by (simp_all add: ParentTreeScope_def example_heap_def example_scopes_def no_scope_def)

lemma example_scope_chain:
  "scope_chain example_heap 1 [1]"
  "scope_chain example_heap 2 [2]"
  "scope_chain example_heap 3 [3, 1]"
  "scope_chain example_heap 5 [5, 3, 1]"
  "scope_chain example_heap 6 [6, 1]"
  "scope_chain example_heap 7 [7, 1]"
  by (rule scope_chain_step scope_chain_end example_ParentTreeScope)+

text \<open>
  Claim C1, as the code has it. Let the ancestor chain of scope \<open>A\<close> be \<open>ca\<close> and the
  chain of scope \<open>B\<close> be \<open>ys @ ca\<close> with \<open>ys\<close> not empty: read from the document end, the
  chain of \<open>A\<close> is a strict prefix of the chain of \<open>B\<close>, so \<open>A\<close> is an ancestor of \<open>B\<close>.
  The verdict of \<open>ComparePosition\<close> describes the other scope relative to the scope it is
  called on: called on \<open>A\<close>, the scope with the shorter chain, it returns "following +
  contained by" (\<open>B\<close> follows \<open>A\<close> and is contained by it); called on \<open>B\<close>, the scope
  with the longer chain, it returns "preceding + contains".
\<close>

theorem ComparePosition_ancestor_verdict:
  assumes A: "scope_chain h A ca" and B: "scope_chain h B (ys @ ca)" and ys: "ys \<noteq> []"
  shows "ComparePosition K h A B =
           Some (Inr (kDocumentPositionFollowing K OR kDocumentPositionContainedBy K))
       \<and> ComparePosition K h B A =
           Some (Inr (kDocumentPositionPreceding K OR kDocumentPositionContains K))"
proof -
  from A obtain cs where ca: "ca = A # cs" using scope_chain_hd by blast
  have ne: "A \<noteq> B"
  proof
    assume "A = B"
    with A B have "ca = ys @ ca" by (auto dest: scope_chain_unique)
    with ys show False by simp
  qed
  have chainA: "ancestor_chain h (Some A) [] = Some ca"
    using ancestor_chain_scope_chain [OF A, of "[]"] by simp
  have chainB: "ancestor_chain h (Some B) [] = Some (ys @ ca)"
    using ancestor_chain_scope_chain [OF B, of "[]"] by simp
  have lastA: "ca ! (length ca - 1) = last ca" using ca by (simp add: last_conv_nth)
  have lastB: "(ys @ ca) ! (length (ys @ ca) - 1) = last ca"
  proof -
    have "ys @ ca \<noteq> []" using ys by simp
    then have "last (ys @ ca) = (ys @ ca) ! (length (ys @ ca) - 1)"
      by (rule last_conv_nth)
    moreover have "last (ys @ ca) = last ca" using ca by simp
    ultimately show ?thesis by simp
  qed
  have loopAB: "ComparePosition_loop K h ca (ys @ ca) (length ca) (length (ys @ ca))
                  (min (length ca) (length (ys @ ca))) =
        Some (Inr (kDocumentPositionFollowing K OR kDocumentPositionContainedBy K))"
    using ComparePosition_loop_common [of "length ca" ca K h "[]" ys 0] ys
    by (simp add: add.commute)
  have loopBA: "ComparePosition_loop K h (ys @ ca) ca (length (ys @ ca)) (length ca)
                  (min (length (ys @ ca)) (length ca)) =
        Some (Inr (kDocumentPositionPreceding K OR kDocumentPositionContains K))"
    using ComparePosition_loop_common [of "length ca" ca K h ys "[]" 0] ys
    by (simp add: add.commute)
  have "ComparePosition K h A B =
           Some (Inr (kDocumentPositionFollowing K OR kDocumentPositionContainedBy K))"
    using ne lastA lastB loopAB
    by (simp add: ComparePosition_def chainA chainB Let_def del: length_append)
  moreover have "ComparePosition K h B A =
           Some (Inr (kDocumentPositionPreceding K OR kDocumentPositionContains K))"
    using ne lastA lastB loopBA
    by (simp add: ComparePosition_def chainA chainB Let_def del: length_append)
  ultimately show ?thesis by blast
qed

text \<open>
  In the example the document 1 is an ancestor of scope 5: with the constants of the DOM
  standard the verdicts are 20 (4 + 16) on the document and 10 (2 + 8) on scope 5.
\<close>

theorem ComparePosition_ancestor_verdict_witness:
  "scope_chain example_heap 1 [1] \<and> scope_chain example_heap 5 ([5, 3] @ [1])
   \<and> ComparePosition dom_positions example_heap 1 5 = Some (Inr 20)
   \<and> ComparePosition dom_positions example_heap 5 1 = Some (Inr 10)"
proof -
  have c1: "scope_chain example_heap 1 [1]"
    by (rule example_scope_chain)
  have c5: "scope_chain example_heap 5 ([5, 3] @ [1])"
    using example_scope_chain(4) by simp
  have ne: "[5, 3] \<noteq> ([] :: obj list)"
    by simp
  from ComparePosition_ancestor_verdict [OF c1 c5 ne, of dom_positions] c1 c5
  show ?thesis
    by (simp add: dom_positions_def)
qed

text \<open>
  Claim C1 as it is written gives the scope with the shorter chain the verdict "preceding
  + contains" and the scope with the longer chain "following + contained by". On the
  example neither holds: the document 1 has the shorter chain and scope 5 the longer one.
\<close>

theorem ComparePosition_ancestor_counterexample:
  "ComparePosition dom_positions example_heap 1 5 \<noteq>
     Some (Inr (kDocumentPositionPreceding dom_positions OR kDocumentPositionContains dom_positions))
   \<and> ComparePosition dom_positions example_heap 5 1 \<noteq>
     Some (Inr (kDocumentPositionFollowing dom_positions
                  OR kDocumentPositionContainedBy dom_positions))"
  by code_simp


section \<open>Position comparison of shadow roots of one host\<close>

text \<open>
  Claim C2. Let the ancestor chains of \<open>A\<close> and \<open>B\<close>, walked from the document end, agree
  on the non-empty part \<open>cs\<close> and first differ at \<open>childA\<close> and \<open>childB\<close>, whose root nodes
  have the same host; let the root of \<open>childB\<close> be a shadow root and \<open>os\<close> the stack of
  shadow roots older than it. Then \<open>ComparePosition\<close> called on \<open>A\<close> with \<open>B\<close> returns:
  "following" when \<open>childA\<close> is in that stack (\<open>childB\<close> is the newer generation, \<open>childA\<close>
  precedes it), and "preceding" otherwise (\<open>childA\<close> follows). A shadow root is one object,
  tree scope and root node at once, which is why the loop can compare an older shadow root
  with the scope \<open>childA\<close>.
\<close>

theorem ComparePosition_same_host:
  assumes A: "scope_chain h A (xs @ childA # cs)"
    and B: "scope_chain h B (ys @ childB # cs)"
    and cs: "cs \<noteq> []"
    and ne: "childA \<noteq> childB"
    and host: "ParentOrShadowHostNode h (RootNode h childA) =
               ParentOrShadowHostNode h (RootNode h childB)"
    and sr: "IsShadowRoot h (RootNode h childB)"
    and older: "older_chain h (RootNode h childB) os"
  shows "ComparePosition K h A B =
           Some (Inr (if childA \<in> set os then kDocumentPositionFollowing K
                      else kDocumentPositionPreceding K))"
proof -
  let ?c1 = "(xs @ [childA]) @ cs" and ?c2 = "(ys @ [childB]) @ cs"
  have AB: "A \<noteq> B"
  proof
    assume "A = B"
    with A B have "xs @ childA # cs = ys @ childB # cs" by (auto dest: scope_chain_unique)
    then have "(xs @ [childA]) @ cs = (ys @ [childB]) @ cs" by simp
    then have "xs @ [childA] = ys @ [childB]" by (simp only: append_same_eq)
    with ne show False by simp
  qed
  have chainA: "ancestor_chain h (Some A) [] = Some ?c1"
    using ancestor_chain_scope_chain [OF A, of "[]"] by simp
  have chainB: "ancestor_chain h (Some B) [] = Some ?c2"
    using ancestor_chain_scope_chain [OF B, of "[]"] by simp
  have last1: "?c1 ! (length ?c1 - 1) = last cs"
  proof -
    have "?c1 \<noteq> []" by simp
    then have "last ?c1 = ?c1 ! (length ?c1 - 1)" by (rule last_conv_nth)
    moreover have "last ?c1 = last cs" using cs by simp
    ultimately show ?thesis by simp
  qed
  have last2: "?c2 ! (length ?c2 - 1) = last cs"
  proof -
    have "?c2 \<noteq> []" by simp
    then have "last ?c2 = ?c2 ! (length ?c2 - 1)" by (rule last_conv_nth)
    moreover have "last ?c2 = last cs" using cs by simp
    ultimately show ?thesis by simp
  qed
  have min: "min (length ?c1) (length ?c2) = Suc (min (length xs) (length ys)) + length cs"
    by simp
  have "ComparePosition_loop K h ?c1 ?c2 (length ?c1) (length ?c2)
          (min (length ?c1) (length ?c2)) =
        ComparePosition_loop K h ?c1 ?c2 (length (xs @ [childA])) (length (ys @ [childB]))
          (Suc (min (length xs) (length ys)))"
    unfolding min
    using ComparePosition_loop_common
      [of "length cs" cs K h "xs @ [childA]" "ys @ [childB]" "Suc (min (length xs) (length ys))"]
    by simp
  also have "\<dots> = map_option Inr
       (older_shadow_root_loop K h (OlderShadowRoot h (RootNode h childB)) childA)"
    using ne host sr by (simp add: nth_append)
  also have "\<dots> = Some (Inr (if childA \<in> set os then kDocumentPositionFollowing K
                      else kDocumentPositionPreceding K))"
    by (simp add: older_shadow_root_loop_older_chain [OF older])
  finally have loop: "ComparePosition_loop K h ?c1 ?c2 (length ?c1) (length ?c2)
          (min (length ?c1) (length ?c2)) =
        Some (Inr (if childA \<in> set os then kDocumentPositionFollowing K
                      else kDocumentPositionPreceding K))" .
  show ?thesis
    using AB last1 last2 loop
    by (simp add: ComparePosition_def chainA chainB Let_def del: length_append append_assoc)
qed


text \<open>
  In the example element 12 hosts generation 6, the oldest, and generation 7, attached
  later. Called on the scope of 6 with the scope of 7 the verdict is "following": the older
  generation precedes the newer one. Called the other way round it is "preceding".
\<close>

lemma example_older_chain:
  "older_chain example_heap 7 [6]"
  "older_chain example_heap 6 []"
proof -
  have 7: "OlderShadowRoot example_heap 7 = Some 6"
    and 6: "OlderShadowRoot example_heap 6 = None"
    by (simp_all add: OlderShadowRoot_def example_heap_def example_nodes_def no_node_def)
  show "older_chain example_heap 6 []"
    using 6 by (rule older_chain_end)
  then show "older_chain example_heap 7 [6]"
    using 7 by (blast intro: older_chain_step)
qed

lemma example_RootNode:
  "RootNode example_heap 6 = 6"
  "RootNode example_heap 7 = 7"
  by (simp_all add: RootNode_def example_heap_def example_scopes_def no_scope_def)

lemma example_generations:
  "ParentOrShadowHostNode example_heap 6 = Some 12"
  "ParentOrShadowHostNode example_heap 7 = Some 12"
  "IsShadowRoot example_heap 6"
  "IsShadowRoot example_heap 7"
  by (simp_all add: ParentOrShadowHostNode_def IsShadowRoot_def example_heap_def
      example_nodes_def no_node_def)

theorem ComparePosition_same_host_witness:
  "scope_chain example_heap 6 ([] @ 6 # [1]) \<and> scope_chain example_heap 7 ([] @ 7 # [1])
   \<and> ParentOrShadowHostNode example_heap (RootNode example_heap 6) =
      ParentOrShadowHostNode example_heap (RootNode example_heap 7)
   \<and> IsShadowRoot example_heap (RootNode example_heap 7)
   \<and> older_chain example_heap (RootNode example_heap 7) [6]
   \<and> ComparePosition dom_positions example_heap 6 7 =
      Some (Inr (kDocumentPositionFollowing dom_positions))
   \<and> ComparePosition dom_positions example_heap 7 6 =
      Some (Inr (kDocumentPositionPreceding dom_positions))"
proof -
  have c6: "scope_chain example_heap 6 ([] @ 6 # [1])"
    using example_scope_chain(5) by simp
  have c7: "scope_chain example_heap 7 ([] @ 7 # [1])"
    using example_scope_chain(6) by simp
  have cs: "[1] \<noteq> ([] :: obj list)" and ne: "(6 :: obj) \<noteq> 7" and ne': "(7 :: obj) \<noteq> 6"
    by simp_all
  have host: "ParentOrShadowHostNode example_heap (RootNode example_heap 6) =
      ParentOrShadowHostNode example_heap (RootNode example_heap 7)"
    by (simp add: example_RootNode example_generations)
  have sr7: "IsShadowRoot example_heap (RootNode example_heap 7)"
    and sr6: "IsShadowRoot example_heap (RootNode example_heap 6)"
    by (simp_all add: example_RootNode example_generations)
  have o7: "older_chain example_heap (RootNode example_heap 7) [6]"
    and o6: "older_chain example_heap (RootNode example_heap 6) []"
    by (simp_all add: example_RootNode example_older_chain)
  from ComparePosition_same_host [OF c6 c7 cs ne host sr7 o7, of dom_positions]
       ComparePosition_same_host [OF c7 c6 cs ne' host [symmetric] sr6 o6, of dom_positions]
       c6 c7 host sr7 o7
  show ?thesis by simp
qed

section \<open>The common ancestor scope\<close>

lemma pop_matching_common:
  "pop_matching (xs @ cs) (ys @ cs) last_ancestor =
     pop_matching xs ys (case cs of [] \<Rightarrow> last_ancestor | c # _ \<Rightarrow> Some c)"
proof (induction cs arbitrary: last_ancestor rule: rev_induct)
  case Nil
  then show ?case by simp
next
  case (snoc c cs)
  have "pop_matching (xs @ cs @ [c]) (ys @ cs @ [c]) last_ancestor =
        pop_matching (xs @ cs) (ys @ cs) (Some c)"
    by (subst pop_matching.simps) (simp add: butlast_append)
  also have "\<dots> = pop_matching xs ys (case cs of [] \<Rightarrow> Some c | c' # _ \<Rightarrow> Some c')"
    by (rule snoc.IH)
  also have "(case cs of [] \<Rightarrow> Some c | c' # _ \<Rightarrow> Some c') =
             (case cs @ [c] of [] \<Rightarrow> last_ancestor | c' # _ \<Rightarrow> Some c')"
    by (cases cs) simp_all
  finally show ?case by simp
qed

lemma pop_matching_stop:
  "xs = [] \<or> ys = [] \<or> last xs \<noteq> last ys \<Longrightarrow> pop_matching xs ys last_ancestor = last_ancestor"
  by (subst pop_matching.simps) auto

text \<open>
  Claim C8. Let \<open>ca\<close> and \<open>cb\<close> be the ancestor chains of \<open>A\<close> and \<open>B\<close>. The call returns.
  Split the chains as \<open>xs @ cs\<close> and \<open>ys @ cs\<close>, where \<open>cs\<close> is all that the two have in
  common at the document end (one of \<open>xs\<close>, \<open>ys\<close> is empty or their last entries differ):
  the result is the first entry of \<open>cs\<close>, the last scope that matched while the chains
  were popped from the document end, and the null pointer when \<open>cs\<close> is empty. When the
  document-end entries of the two chains differ the result is the null pointer, a value
  and not a fault.
\<close>

theorem CommonAncestorTreeScope_last_match:
  assumes A: "scope_chain h A ca" and B: "scope_chain h B cb"
  shows "(\<forall>xs ys cs. ca = xs @ cs \<and> cb = ys @ cs \<and> (xs = [] \<or> ys = [] \<or> last xs \<noteq> last ys)
            \<longrightarrow> CommonAncestorTreeScope h A B = Some (case cs of [] \<Rightarrow> None | c # _ \<Rightarrow> Some c))
       \<and> (last ca \<noteq> last cb \<longrightarrow> CommonAncestorTreeScope h A B = Some None)"
proof -
  have chainA: "ancestor_chain h (Some A) [] = Some ca"
    using ancestor_chain_scope_chain [OF A, of "[]"] by simp
  have chainB: "ancestor_chain h (Some B) [] = Some cb"
    using ancestor_chain_scope_chain [OF B, of "[]"] by simp
  have result: "CommonAncestorTreeScope h A B = Some (pop_matching ca cb None)"
    by (simp add: CommonAncestorTreeScope_def chainA chainB)
  have matched: "CommonAncestorTreeScope h A B = Some (case cs of [] \<Rightarrow> None | c # _ \<Rightarrow> Some c)"
    if "ca = xs @ cs" "cb = ys @ cs" "xs = [] \<or> ys = [] \<or> last xs \<noteq> last ys"
    for xs ys cs
    using that by (simp add: result pop_matching_common pop_matching_stop)
  have disconnected: "CommonAncestorTreeScope h A B = Some None" if "last ca \<noteq> last cb"
    using that by (simp add: result pop_matching_stop)
  from matched disconnected show ?thesis by blast
qed

text \<open>
  In the example the scopes 7 and 5 meet in the document 1, scope 5 meets itself in 5, and
  the other document 2 has no scope in common with scope 5.
\<close>

theorem CommonAncestorTreeScope_last_match_witness:
  "scope_chain example_heap 7 [7, 1] \<and> scope_chain example_heap 5 [5, 3, 1]
   \<and> scope_chain example_heap 2 [2]
   \<and> CommonAncestorTreeScope example_heap 7 5 = Some (Some 1)
   \<and> CommonAncestorTreeScope example_heap 5 5 = Some (Some 5)
   \<and> CommonAncestorTreeScope example_heap 2 5 = Some None"
proof -
  note c = example_scope_chain
  have "CommonAncestorTreeScope example_heap 7 5 =
          Some (case [1::obj] of [] \<Rightarrow> None | c # _ \<Rightarrow> Some c)"
    by (rule CommonAncestorTreeScope_last_match
          [OF c(6) c(4), THEN conjunct1, rule_format, of "[7]" "[1]" "[5, 3]"]) simp
  moreover have "CommonAncestorTreeScope example_heap 5 5 =
          Some (case [5::obj, 3, 1] of [] \<Rightarrow> None | c # _ \<Rightarrow> Some c)"
    by (rule CommonAncestorTreeScope_last_match
          [OF c(4) c(4), THEN conjunct1, rule_format, of "[]" "[5, 3, 1]" "[]"]) simp
  moreover have "CommonAncestorTreeScope example_heap 2 5 = Some None"
    by (rule CommonAncestorTreeScope_last_match
          [OF c(2) c(4), THEN conjunct2, rule_format]) simp
  ultimately show ?thesis using c(6) c(4) c(2) by simp
qed

section \<open>Reparenting a scope\<close>

lemma SetParentTreeScope_document_root:
  "IsDocumentNode h (RootNode h this) \<Longrightarrow> SetParentTreeScope this p h = Inl DCheckFailure"
  by (simp add: SetParentTreeScope_def)

lemma SetParentTreeScope_heap:
  "\<not> IsDocumentNode h (RootNode h this) \<Longrightarrow>
     SetParentTreeScope this p h =
       Inr (h\<lparr>scopes := (scopes h)
              (this := (scopes h this)\<lparr>parent_tree_scope := Some p,
                                         document := GetDocument h p\<rparr>)\<rparr>)"
  by (simp add: SetParentTreeScope_def SetDocument_def GetDocument_def Let_def)

text \<open>
  Claim C3, as the code has it. On a scope whose root is the document node
  \<open>SetParentTreeScope\<close> fails its assertion. On any other scope it returns a heap in
  which the parent of the scope is the new parent and the document of the scope is the
  document of the new parent; every other scope, so also every scope below the one that
  moved, is as it was before, and so are the nodes.
\<close>

theorem SetParentTreeScope_sets_parent_and_document:
  "(IsDocumentNode h (RootNode h this) \<longrightarrow> SetParentTreeScope this p h = Inl DCheckFailure)
   \<and> (\<not> IsDocumentNode h (RootNode h this) \<longrightarrow>
        (\<exists>h'. SetParentTreeScope this p h = Inr h'
            \<and> ParentTreeScope h' this = Some p
            \<and> GetDocument h' this = GetDocument h p
            \<and> (\<forall>s. s \<noteq> this \<longrightarrow> scopes h' s = scopes h s)
            \<and> nodes h' = nodes h))"
proof (intro conjI impI)
  assume "IsDocumentNode h (RootNode h this)"
  then show "SetParentTreeScope this p h = Inl DCheckFailure"
    by (rule SetParentTreeScope_document_root)
next
  assume "\<not> IsDocumentNode h (RootNode h this)"
  then have "SetParentTreeScope this p h =
       Inr (h\<lparr>scopes := (scopes h)
              (this := (scopes h this)\<lparr>parent_tree_scope := Some p,
                                         document := GetDocument h p\<rparr>)\<rparr>)"
    by (rule SetParentTreeScope_heap)
  then show "\<exists>h'. SetParentTreeScope this p h = Inr h'
            \<and> ParentTreeScope h' this = Some p
            \<and> GetDocument h' this = GetDocument h p
            \<and> (\<forall>s. s \<noteq> this \<longrightarrow> scopes h' s = scopes h s)
            \<and> nodes h' = nodes h"
    by (simp add: ParentTreeScope_def GetDocument_def)
qed

text \<open>
  In the example, scope 3 is moved under the other document 2; the document 1 itself
  cannot be given a parent.
\<close>

theorem SetParentTreeScope_witness:
  "\<not> IsDocumentNode example_heap (RootNode example_heap 3)
   \<and> IsDocumentNode example_heap (RootNode example_heap 1)
   \<and> SetParentTreeScope 1 2 example_heap = Inl DCheckFailure
   \<and> ParentTreeScope (projr (SetParentTreeScope 3 2 example_heap)) 3 = Some 2
   \<and> GetDocument (projr (SetParentTreeScope 3 2 example_heap)) 3 = 2"
  using SetParentTreeScope_sets_parent_and_document [of example_heap 3 2]
    SetParentTreeScope_sets_parent_and_document [of example_heap 1 2]
  by (auto simp: IsDocumentNode_def RootNode_def GetDocument_def example_heap_def
      example_scopes_def example_nodes_def no_scope_def no_node_def)

text \<open>
  Claim C3 as it is written has every scope below the moved one report the document of
  the new parent. Scope 5 is below scope 3; after scope 3 is moved under document 2, scope 5
  still has scope 3 as its parent and still reports document 1, while scope 3 and the new
  parent report document 2.
\<close>

theorem SetParentTreeScope_counterexample:
  "\<not> isl (SetParentTreeScope 3 2 example_heap)
   \<and> ParentTreeScope (projr (SetParentTreeScope 3 2 example_heap)) 5 = Some 3
   \<and> GetDocument (projr (SetParentTreeScope 3 2 example_heap)) 2 = 2
   \<and> GetDocument (projr (SetParentTreeScope 3 2 example_heap)) 3 = 2
   \<and> GetDocument (projr (SetParentTreeScope 3 2 example_heap)) 5 = 1
   \<and> GetDocument (projr (SetParentTreeScope 3 2 example_heap)) 5 \<noteq>
      GetDocument (projr (SetParentTreeScope 3 2 example_heap)) 2"
  by (simp add: SetParentTreeScope_def SetDocument_def GetDocument_def ParentTreeScope_def
      IsDocumentNode_def RootNode_def example_heap_def example_scopes_def example_nodes_def
      no_scope_def no_node_def Let_def)

section \<open>The identifier index: notifications\<close>

lemma registry_AddElementById:
  "id_target_observer_registry (scopes (AddElementById this key e h) this) =
     id_target_observer_registry (scopes h this) @ [key]"
  by (simp add: AddElementById_def NotifyObservers_def Let_def)

lemma registry_RemoveElementById:
  "elements_by_id (scopes h this) = Some m \<Longrightarrow>
     id_target_observer_registry (scopes (RemoveElementById this key e h) this) =
       id_target_observer_registry (scopes h this) @ [key]"
  by (simp add: RemoveElementById_def NotifyObservers_def Let_def)

lemma RemoveElementById_absent:
  "elements_by_id (scopes h this) = None \<Longrightarrow> RemoveElementById this key e h = h"
  by (simp add: RemoveElementById_def Let_def)

text \<open>
  Claim C6, as the code has it. Every \<open>AddElementById\<close> notifies the observer registry of
  the scope for the key: the registry receives one more call, for that key. Every
  \<open>RemoveElementById\<close> on a scope that has an index does the same, whether or not the
  element is in the index. On a scope that has no index \<open>RemoveElementById\<close> returns at
  once: the heap is unchanged and the registry receives nothing.
\<close>

theorem id_index_notifications:
  "id_target_observer_registry (scopes (AddElementById this key e h) this) =
     id_target_observer_registry (scopes h this) @ [key]
   \<and> (elements_by_id (scopes h this) \<noteq> None \<longrightarrow>
        id_target_observer_registry (scopes (RemoveElementById this key e h) this) =
          id_target_observer_registry (scopes h this) @ [key])
   \<and> (elements_by_id (scopes h this) = None \<longrightarrow> RemoveElementById this key e h = h)"
  using registry_AddElementById [of this key e h] registry_RemoveElementById [of h this _ key e]
    RemoveElementById_absent [of h this key e]
  by auto

text \<open>
  In the example: adding element 10 under \<open>x\<close> notifies once; removing element 12, which
  is not in the index, notifies again; removing from the scope that has no index does
  nothing.
\<close>

theorem id_index_notifications_witness:
  "elements_by_id (scopes (AddElementById 1 ''x'' 10 example_heap) 1) \<noteq> None
   \<and> elements_by_id (scopes example_heap 1) = None
   \<and> id_target_observer_registry (scopes (AddElementById 1 ''x'' 10 example_heap) 1) = [''x'']
   \<and> id_target_observer_registry
        (scopes (RemoveElementById 1 ''x'' 12 (AddElementById 1 ''x'' 10 example_heap)) 1) =
      [''x'', ''x'']
   \<and> RemoveElementById 1 ''x'' 10 example_heap = example_heap"
  using id_index_notifications [of 1 "''x''" 10 example_heap]
    id_index_notifications [of 1 "''x''" 12 "AddElementById 1 ''x'' 10 example_heap"]
  by (simp add: AddElementById_def Let_def example_heap_def example_scopes_def no_scope_def
      NotifyObservers_def)

text \<open>
  Claim C6 as it is written has the notification fire on every remove, also when the
  index is absent. The document of the example has no index: after a remove its registry is
  as empty as before.
\<close>

theorem id_index_notifications_counterexample:
  "elements_by_id (scopes example_heap 1) = None
   \<and> id_target_observer_registry (scopes example_heap 1) = []
   \<and> id_target_observer_registry (scopes (RemoveElementById 1 ''x'' 10 example_heap) 1) = []
   \<and> id_target_observer_registry (scopes (RemoveElementById 1 ''x'' 10 example_heap) 1) \<noteq>
      id_target_observer_registry (scopes example_heap 1) @ [''x'']"
  by (simp add: RemoveElementById_def Let_def example_heap_def example_scopes_def no_scope_def)

section \<open>The identifier index: lookup\<close>






text \<open>
  In the example the elements 12 and then 10 are added under \<open>x\<close>: the lookup returns 10,
  which comes first in tree order; with 10 removed it returns 12, with both removed
  nothing. An occurrence added under the empty key is not found by a lookup of the empty
  key.
\<close>

lemmas example_index_defs =
  AddElementById_def RemoveElementById_def Let_def example_heap_def example_scopes_def
  no_scope_def TreeOrderedMap_Create_def TreeOrderedMap_Add_def TreeOrderedMap_Remove_def
  NotifyObservers_def carries_def



section \<open>The identifier index: lazy creation\<close>

lemma getElementById_heap: "snd (getElementById h this key) = h"
  by (simp add: getElementById_def split: option.splits)

lemma GetAllElementsById_heap: "snd (GetAllElementsById h this key) = h"
  by (simp add: GetAllElementsById_def split: option.splits)

lemma AddElementById_creates:
  "elements_by_id (scopes (AddElementById this key e h) this) \<noteq> None"
  by (simp add: AddElementById_def Let_def)

text \<open>
  Claim C10. On every heap, whether the scope has an index or not, \<open>getElementById\<close> and
  \<open>GetAllElementsById\<close> hand back the heap they were given: the state of the scope and of
  every other scope is unchanged, and a scope that had no index has none afterwards. On a
  scope without an index they return the null pointer and the empty vector, and
  \<open>RemoveElementById\<close> returns the heap unchanged, the index still absent. After
  \<open>AddElementById\<close> the scope has an index: only this operation creates it.
\<close>

theorem id_index_lazy_creation:
  "snd (getElementById h this key) = h
   \<and> snd (GetAllElementsById h this key) = h
   \<and> (elements_by_id (scopes h this) = None \<longrightarrow>
        fst (getElementById h this key) = None \<and> fst (GetAllElementsById h this key) = []
        \<and> elements_by_id (scopes (snd (getElementById h this key)) this) = None
        \<and> elements_by_id (scopes (snd (GetAllElementsById h this key)) this) = None
        \<and> RemoveElementById this key e h = h
        \<and> elements_by_id (scopes (RemoveElementById this key e h) this) = None)
   \<and> elements_by_id (scopes (AddElementById this key e h) this) \<noteq> None"
proof (intro conjI impI)
  show get: "snd (getElementById h this key) = h"
    by (rule getElementById_heap)
  show getAll: "snd (GetAllElementsById h this key) = h"
    by (rule GetAllElementsById_heap)
  show "elements_by_id (scopes (AddElementById this key e h) this) \<noteq> None"
    by (rule AddElementById_creates)
  assume absent: "elements_by_id (scopes h this) = None"
  show "fst (getElementById h this key) = None"
    using absent by (simp add: getElementById_def)
  show "fst (GetAllElementsById h this key) = []"
    using absent by (simp add: GetAllElementsById_def)
  show "elements_by_id (scopes (snd (getElementById h this key)) this) = None"
    using absent by (simp add: get)
  show "elements_by_id (scopes (snd (GetAllElementsById h this key)) this) = None"
    using absent by (simp add: getAll)
  show same: "RemoveElementById this key e h = h"
    using absent by (rule RemoveElementById_absent)
  show "elements_by_id (scopes (RemoveElementById this key e h) this) = None"
    using absent by (simp add: same)
qed

text \<open>
  In the example the document has no index: the lookups find nothing and leave the heap as
  it is, and so does a remove; the first add creates the index. On the heap that has the
  index the lookups find element 10 and again leave the heap as it is.
\<close>

theorem id_index_lazy_creation_witness:
  "elements_by_id (scopes example_heap 1) = None
   \<and> getElementById example_heap 1 ''x'' = (None, example_heap)
   \<and> GetAllElementsById example_heap 1 ''x'' = ([], example_heap)
   \<and> RemoveElementById 1 ''x'' 10 example_heap = example_heap
   \<and> elements_by_id (scopes (AddElementById 1 ''x'' 10 example_heap) 1) = Some [(''x'', 10)]
   \<and> getElementById (AddElementById 1 ''x'' 10 example_heap) 1 ''x'' =
        (Some 10, AddElementById 1 ''x'' 10 example_heap)
   \<and> GetAllElementsById (AddElementById 1 ''x'' 10 example_heap) 1 ''x'' =
        ([10], AddElementById 1 ''x'' 10 example_heap)"
proof -
  note absent = id_index_lazy_creation [of example_heap 1 "''x''" 10]
  note present = id_index_lazy_creation [of "AddElementById 1 ''x'' 10 example_heap" 1 "''x''" 10]
  have none: "elements_by_id (scopes example_heap 1) = None"
    by (simp add: example_heap_def example_scopes_def no_scope_def)
  have created: "elements_by_id (scopes (AddElementById 1 ''x'' 10 example_heap) 1) =
      Some [(''x'', 10)]"
    by (simp add: example_index_defs)
  have found: "fst (getElementById (AddElementById 1 ''x'' 10 example_heap) 1 ''x'') = Some 10"
    by (simp add: getElementById_def TreeOrderedMap_GetElementById_def example_index_defs)
  have all: "fst (GetAllElementsById (AddElementById 1 ''x'' 10 example_heap) 1 ''x'') = [10]"
    by (simp add: GetAllElementsById_def TreeOrderedMap_GetAllElementsById_def
        example_index_defs)
  from absent none have
    "getElementById example_heap 1 ''x'' = (None, example_heap)"
    "GetAllElementsById example_heap 1 ''x'' = ([], example_heap)"
    "RemoveElementById 1 ''x'' 10 example_heap = example_heap"
    by (simp_all add: prod_eq_iff)
  moreover from present found all have
    "getElementById (AddElementById 1 ''x'' 10 example_heap) 1 ''x'' =
        (Some 10, AddElementById 1 ''x'' 10 example_heap)"
    "GetAllElementsById (AddElementById 1 ''x'' 10 example_heap) 1 ''x'' =
        ([10], AddElementById 1 ''x'' 10 example_heap)"
    by (simp_all add: prod_eq_iff)
  ultimately show ?thesis
    using none created by simp
qed

section \<open>The access key scan returns the last match in visiting order\<close>

lemma last_match_Nil: "last_match eq key [] = None"
  by (simp add: last_match_def)

lemma last_match_if:
  "last_match eq key xs =
     (if filter (\<lambda>e. eq (accesskeyAttr e) key) xs = [] then None
      else Some (last (filter (\<lambda>e. eq (accesskeyAttr e) key) xs)))"
  by (simp add: last_match_def split: list.splits)

lemma last_match_append:
  "last_match eq key (xs @ ys) =
     (case last_match eq key ys of Some r \<Rightarrow> Some r | None \<Rightarrow> last_match eq key xs)"
  by (simp add: last_match_if)

lemma last_match_Cons:
  "last_match eq key (x # ys) =
     (case last_match eq key ys of
        Some r \<Rightarrow> Some r
      | None \<Rightarrow> if eq (accesskeyAttr x) key then Some x else None)"
  by (simp add: last_match_if)

lemma fold_shadow_roots:
  assumes "\<forall>sr \<in> set srs. G sr = last_match eq key (V sr)"
  shows "fold (\<lambda>shadow_root result.
                 case G shadow_root of Some shadow_result \<Rightarrow> Some shadow_result | None \<Rightarrow> result)
              srs result =
         (case last_match eq key (concat (map V srs)) of Some r \<Rightarrow> Some r | None \<Rightarrow> result)"
  using assms
proof (induction srs arbitrary: result)
  case Nil
  then show ?case by (simp add: last_match_Nil)
next
  case (Cons sr srs)
  then show ?case
    by (simp add: last_match_append split: option.splits)
qed

lemma fold_descendants:
  assumes "\<forall>e \<in> set es. \<forall>sr \<in> set (shadow_roots e). G sr = last_match eq key (V sr)"
  shows "fold (\<lambda>element result.
                 fold (\<lambda>shadow_root result.
                         case G shadow_root of
                           Some shadow_result \<Rightarrow> Some shadow_result
                         | None \<Rightarrow> result)
                      (shadow_roots element)
                      (if eq (accesskeyAttr element) key then Some element else result))
              es result =
         (case last_match eq key
                 (concat (map (\<lambda>element. element # concat (map V (shadow_roots element))) es)) of
            Some r \<Rightarrow> Some r
          | None \<Rightarrow> result)"
  using assms
proof (induction es arbitrary: result)
  case Nil
  then show ?case by (simp add: last_match_Nil)
next
  case (Cons e es)
  then have inner: "\<forall>sr \<in> set (shadow_roots e). G sr = last_match eq key (V sr)"
    and rest: "\<forall>e \<in> set es. \<forall>sr \<in> set (shadow_roots e). G sr = last_match eq key (V sr)"
    by simp_all
  show ?case
    by (simp add: fold_shadow_roots [OF inner] Cons.IH [OF rest] last_match_append
        last_match_Cons split: option.splits)
qed

lemma GetElementByAccessKey_visiting_order:
  "key \<noteq> [] \<Longrightarrow>
     GetElementByAccessKey eq key root = last_match eq key (visiting_order root)"
proof (induction eq key root rule: GetElementByAccessKey.induct)
  case (1 eq key root)
  have IH: "\<forall>e \<in> set (DescendantsOf root). \<forall>sr \<in> set (shadow_roots e).
              GetElementByAccessKey eq key sr = last_match eq key (visiting_order sr)"
    using "1.IH" "1.prems" by blast
  show ?case
    using "1.prems"
    by (subst GetElementByAccessKey.simps, subst visiting_order.simps)
       (simp add: fold_descendants [OF IH] split: option.splits)
qed


text \<open>
  Claim C9. For a key that is not empty, \<open>GetElementByAccessKey\<close> returns the last element
  of the visiting order that matches the key: the visiting order lists the element
  descendants of the root in document order and, right after each element, what the scan
  visits in the shadow roots it hosts, youngest first. A later match overrides an earlier
  one: when \<open>e\<close> matches and nothing visited after \<open>e\<close> does, the result is \<open>e\<close>. When no
  visited element matches, the result is the null pointer.
\<close>

theorem GetElementByAccessKey_last_match:
  assumes "key \<noteq> []"
  shows "GetElementByAccessKey eq key root = last_match eq key (visiting_order root)
       \<and> ((\<forall>e \<in> set (visiting_order root). \<not> eq (accesskeyAttr e) key) \<longrightarrow>
            GetElementByAccessKey eq key root = None)
       \<and> (visiting_order root = before @ e # after \<and> eq (accesskeyAttr e) key
            \<and> (\<forall>a \<in> set after. \<not> eq (accesskeyAttr a) key) \<longrightarrow>
            GetElementByAccessKey eq key root = Some e)"
proof -
  have scan: "GetElementByAccessKey eq key root = last_match eq key (visiting_order root)"
    using assms by (rule GetElementByAccessKey_visiting_order)
  have none: "GetElementByAccessKey eq key root = None"
    if "\<forall>e \<in> set (visiting_order root). \<not> eq (accesskeyAttr e) key"
  proof -
    from that have "filter (\<lambda>e. eq (accesskeyAttr e) key) (visiting_order root) = []"
      by (simp add: filter_empty_conv)
    then show ?thesis by (simp add: scan last_match_if)
  qed
  have last: "GetElementByAccessKey eq key root = Some e"
    if "visiting_order root = before @ e # after" "eq (accesskeyAttr e) key"
       "\<forall>a \<in> set after. \<not> eq (accesskeyAttr a) key"
  proof -
    from that(3) have "filter (\<lambda>e. eq (accesskeyAttr e) key) after = []"
      by (simp add: filter_empty_conv)
    with that(1,2) show ?thesis by (simp add: scan last_match_if)
  qed
  from scan none last show ?thesis by blast
qed

text \<open>
  In the example document the scan visits 20, then 21 and 22 in the two shadow roots of
  20, then 23 and 24. All of 20, 21, 22 and 23 have the key \<open>k\<close>: the result is 23, the last
  of them. No element has the key \<open>q\<close>.
\<close>

lemma example_visiting_order:
  "visiting_order example_document =
     [ContainerNode 20 ''k''
        [ContainerNode 3 [] [] [ContainerNode 21 ''k'' [] []],
         ContainerNode 4 [] [] [ContainerNode 22 ''k'' [] []]]
        [ContainerNode 23 ''k'' [] []],
      ContainerNode 21 ''k'' [] [],
      ContainerNode 22 ''k'' [] []]
     @ ContainerNode 23 ''k'' [] [] # [ContainerNode 24 ''z'' [] []]"
  by code_simp

theorem GetElementByAccessKey_last_match_witness:
  "map node_id (visiting_order example_document) = [20, 21, 22, 23, 24]
   \<and> GetElementByAccessKey (=) ''k'' example_document = Some (ContainerNode 23 ''k'' [] [])
   \<and> GetElementByAccessKey (=) ''q'' example_document = None"
proof -
  have k: "''k'' \<noteq> []" and q: "''q'' \<noteq> []"
    by simp_all
  from GetElementByAccessKey_last_match [OF k, of "(=)" example_document, THEN conjunct2,
      THEN conjunct2, rule_format, OF conjI [OF example_visiting_order]]
  have "GetElementByAccessKey (=) ''k'' example_document = Some (ContainerNode 23 ''k'' [] [])"
    by simp
  moreover
  have "\<forall>e \<in> set (visiting_order example_document). \<not> accesskeyAttr e = ''q''"
    by (simp add: example_visiting_order)
  with GetElementByAccessKey_last_match [OF q, of "(=)" example_document]
  have "GetElementByAccessKey (=) ''q'' example_document = None"
    by blast
  ultimately show ?thesis
    by (simp add: example_visiting_order)
qed

end
